theory Spec2Isabelle
  imports Main "HOL-Library.Sublist"
begin

section \<open>Python strings\<close>

text \<open>
  A Python \<^verbatim>\<open>str\<close> is modelled as a \<^typ>\<open>string\<close> whose characters are the code
  points below 256. On that range \<^verbatim>\<open>str.lower()\<close> moves A..Z and the Latin-1
  capitals (192..222 without the multiplication sign 215) up by 32 and leaves every
  other character alone.
\<close>

definition lower_char :: "char \<Rightarrow> char" where
  "lower_char c =
     (let n = (of_char c :: nat)
      in if (65 \<le> n \<and> n \<le> 90) \<or> (192 \<le> n \<and> n \<le> 222 \<and> n \<noteq> 215)
         then char_of (n + 32) else c)"

definition lower :: "string \<Rightarrow> string" where
  "lower s = map lower_char s"

text \<open>\<^verbatim>\<open>s.startswith(p)\<close>\<close>

fun startswith :: "string \<Rightarrow> string \<Rightarrow> bool" where
  "startswith s [] = True"
| "startswith [] (p # ps) = False"
| "startswith (c # cs) (p # ps) = (c = p \<and> startswith cs ps)"

text \<open>\<^verbatim>\<open>s.endswith(p)\<close>\<close>

definition endswith :: "string \<Rightarrow> string \<Rightarrow> bool" where
  "endswith s p = startswith (rev s) (rev p)"

text \<open>\<^verbatim>\<open>sub in s\<close> on strings: \<open>sub\<close> occurs in \<open>s\<close> as a contiguous run.\<close>

fun str_in :: "string \<Rightarrow> string \<Rightarrow> bool" where
  "str_in sub [] = (sub = [])"
| "str_in sub (c # cs) = (startswith (c # cs) sub \<or> str_in sub cs)"

text \<open>Truthiness of a value that is \<^verbatim>\<open>None\<close> or a string, and \<^verbatim>\<open>a or b\<close> on such values.\<close>

fun truthy :: "string option \<Rightarrow> bool" where
  "truthy None = False"
| "truthy (Some s) = (s \<noteq> [])"

definition py_or :: "string option \<Rightarrow> string option \<Rightarrow> string option" where
  "py_or a b = (if truthy a then a else b)"

section \<open>JSON values and exceptions\<close>

text \<open>
  What \<^verbatim>\<open>response.json()\<close> returns. An object holds its items as a list of pairs with
  distinct keys; the program never looks inside a number, so its carrier is immaterial.
\<close>

datatype json =
    JNull
  | JBool bool
  | JNum int
  | JStr string
  | JArr "json list"
  | JObj "(string \<times> json) list"

datatype py_exc =
    RequestException
  | ValueError
  | AttributeError
  | TypeError
  | PermissionError
  | OSError

text \<open>\<^verbatim>\<open>d.get(k, default)\<close>\<close>

definition dict_get :: "(string \<times> json) list \<Rightarrow> string \<Rightarrow> json \<Rightarrow> json" where
  "dict_get d k dflt = (case map_of d k of Some v \<Rightarrow> v | None \<Rightarrow> dflt)"

text \<open>
  \<^verbatim>\<open>len(x)\<close> followed by \<^verbatim>\<open>for entity in x\<close>: a list yields its elements, an object
  its keys, a string its characters; \<^verbatim>\<open>len\<close> of anything else raises TypeError.
\<close>

fun py_iter :: "json \<Rightarrow> py_exc + json list" where
  "py_iter (JArr xs) = Inr xs"
| "py_iter (JObj kvs) = Inr (map (\<lambda>kv. JStr (fst kv)) kvs)"
| "py_iter (JStr s) = Inr (map (\<lambda>c. JStr [c]) s)"
| "py_iter JNull = Inl TypeError"
| "py_iter (JBool b) = Inl TypeError"
| "py_iter (JNum n) = Inl TypeError"

section \<open>The surroundings of a run\<close>

text \<open>
  What a run depends on besides its arguments: the time stamp
  \<^verbatim>\<open>datetime.now().strftime("%Y%m%d_%H%M%S")\<close>, the exception \<^verbatim>\<open>open(path, 'w')\<close>
  raises for a path (PermissionError when the path may not be written, another one for
  any other failure to open), the number of writer calls that succeed before one fails
  with an I/O error (a full disk, say), \<^verbatim>\<open>str()\<close> on a value that is not a string, and
  the characters above ASCII that the encoding of standard output can represent.
\<close>

record world =
  clock :: string
  open_error :: "string \<Rightarrow> py_exc option"
  write_fails_at :: "nat option"
  str_of :: "json \<Rightarrow> string"
  encodes :: "char \<Rightarrow> bool"

text \<open>
  \<^verbatim>\<open>print(text)\<close> raises UnicodeEncodeError, a ValueError, when standard output cannot
  encode a character of the text; ASCII is always encodable. The fixed parts of the
  program's messages and the numbers in them are ASCII, so only the strings put into a
  message decide whether a print succeeds.
\<close>

definition can_print :: "world \<Rightarrow> string \<Rightarrow> bool" where
  "can_print w text = list_all (\<lambda>c. (of_char c :: nat) < 128 \<or> encodes w c) text"

text \<open>A value inside an f-string: a string as it is, anything else through \<^verbatim>\<open>str()\<close>.\<close>

fun py_format :: "(json \<Rightarrow> string) \<Rightarrow> json \<Rightarrow> string" where
  "py_format f (JStr s) = s"
| "py_format f v = f v"

section \<open>The entity filter of \<^verbatim>\<open>get_shelly_devices\<close>\<close>

text \<open>The dictionary \<^verbatim>\<open>{"id": entity_id, "name": friendly_name}\<close> appended to the result.\<close>

record device_entry =
  entry_id :: string
  entry_name :: json

text \<open>The loop state: \<^verbatim>\<open>shelly_devices\<close> and \<^verbatim>\<open>seen_ids\<close>.\<close>

type_synonym filter_state = "device_entry list \<times> string set"

text \<open>
  One pass through the body of \<^verbatim>\<open>for entity in all_entities\<close>. Calling \<^verbatim>\<open>.get\<close> on a
  value that is not a dictionary, or \<^verbatim>\<open>.startswith\<close> on one that is not a string,
  raises AttributeError; the print of line 91 raises ValueError when the identifier or
  the name cannot be encoded.
\<close>

definition filter_step :: "world \<Rightarrow> json \<Rightarrow> filter_state \<Rightarrow> py_exc + filter_state" where
  "filter_step w entity st =
     (case entity of
        JObj kvs \<Rightarrow>
          (let entity_id = dict_get kvs ''entity_id'' (JStr '''');
               attributes = dict_get kvs ''attributes'' (JObj [])
           in case attributes of
                JObj akvs \<Rightarrow>
                  (let friendly_name = dict_get akvs ''friendly_name'' entity_id
                   in case entity_id of
                        JStr eid \<Rightarrow>
                          (let is_switch = (startswith eid ''switch.'' \<and> str_in ''shelly'' (lower eid));
                               is_cover = startswith eid ''cover.'';
                               is_availability = (str_in ''availability'' (lower eid)
                                                  \<or> str_in ''connectivity'' (lower eid))
                           in if (is_switch \<or> is_cover) \<and> \<not> is_availability
                              then (if eid \<notin> snd st
                                    then (if can_print w (''Found Shelly device: '' @ eid @ '' (''
                                                          @ py_format (str_of w) friendly_name @ '')'')
                                          then Inr (fst st @ [\<lparr>entry_id = eid, entry_name = friendly_name\<rparr>],
                                                    insert eid (snd st))
                                          else Inl ValueError)
                                    else Inr st)
                              else Inr st)
                      | _ \<Rightarrow> Inl AttributeError)
              | _ \<Rightarrow> Inl AttributeError)
      | _ \<Rightarrow> Inl AttributeError)"

fun filter_loop :: "world \<Rightarrow> json list \<Rightarrow> filter_state \<Rightarrow> py_exc + filter_state" where
  "filter_loop w [] st = Inr st"
| "filter_loop w (entity # rest) st =
     (case filter_step w entity st of
        Inl e \<Rightarrow> Inl e
      | Inr st' \<Rightarrow> filter_loop w rest st')"

text \<open>Lines 68 to 99: fresh accumulators, the loop, and the returned list.\<close>

definition filter_entities :: "world \<Rightarrow> json \<Rightarrow> py_exc + device_entry list" where
  "filter_entities w all_entities =
     (case py_iter all_entities of
        Inl e \<Rightarrow> Inl e
      | Inr items \<Rightarrow>
          (case filter_loop w items ([], {}) of
             Inl e \<Rightarrow> Inl e
           | Inr st \<Rightarrow> Inr (fst st)))"

section \<open>The two requests of \<^verbatim>\<open>get_shelly_devices\<close>\<close>

text \<open>
  The outcome of \<^verbatim>\<open>requests.get(url, headers, timeout=30)\<close>: the call raises a
  RequestException (no connection, timeout), or gives a response with a status code
  and a body that \<^verbatim>\<open>.json()\<close> parses (\<open>Some\<close>) or rejects (\<open>None\<close>).
\<close>

datatype http_reply =
    Failed
  | Reply int "json option"

text \<open>The hub as seen by the program: the reply to a GET of a URL with a bearer token.\<close>

type_synonym hub = "string \<Rightarrow> string \<Rightarrow> http_reply"

text \<open>Lines 42 to 68: the outcome of the fetch, before any filtering.\<close>

datatype fetched =
    Raised py_exc
  | Refused
  | Entities json

text \<open>Lines 42 and 43: \<^verbatim>\<open>if ha_url.endswith('/'): ha_url = ha_url[:-1]\<close>\<close>

definition base_url :: "string \<Rightarrow> string" where
  "base_url ha_url = (if endswith ha_url ''/'' then butlast ha_url else ha_url)"

text \<open>
  Lines 49 to 68: the two requests. The print of line 61 shows the states URL and is
  inside the \<^verbatim>\<open>try\<close>.
\<close>

definition fetch_states :: "world \<Rightarrow> hub \<Rightarrow> string \<Rightarrow> string \<Rightarrow> fetched" where
  "fetch_states w http ha_url token =
     (let ha_url = base_url ha_url;
          config_url = ha_url @ ''/api/config''
      in case http config_url token of
           Failed \<Rightarrow> Raised RequestException
         | Reply config_status config_body \<Rightarrow>
             if config_status \<noteq> 200 then Refused
             else
               (let states_url = ha_url @ ''/api/states''
                in if \<not> can_print w (''Getting entities from: '' @ states_url)
                   then Raised ValueError
                   else
                     (case http states_url token of
                        Failed \<Rightarrow> Raised RequestException
                      | Reply states_status states_body \<Rightarrow>
                          if states_status \<noteq> 200 then Refused
                          else (case states_body of
                                  None \<Rightarrow> Raised ValueError
                                | Some all_entities \<Rightarrow> Entities all_entities))))"

text \<open>
  The whole function. The print of line 47 shows the configuration URL before the
  \<^verbatim>\<open>try\<close> is entered, so its exception leaves the function (\<open>Inl\<close>). Inside the
  \<^verbatim>\<open>try\<close> there is an early \<^verbatim>\<open>return []\<close> on a status other than 200, and the three
  handlers all \<^verbatim>\<open>return []\<close>.
\<close>

definition get_shelly_devices ::
  "world \<Rightarrow> hub \<Rightarrow> string \<Rightarrow> string \<Rightarrow> py_exc + device_entry list" where
  "get_shelly_devices w http ha_url token =
     (if \<not> can_print w (''Testing API connection at: '' @ base_url ha_url @ ''/api/config'')
      then Inl ValueError
      else
        (case fetch_states w http ha_url token of
           Raised e \<Rightarrow> Inr []
         | Refused \<Rightarrow> Inr []
         | Entities all_entities \<Rightarrow>
             (case filter_entities w all_entities of
                Inl e \<Rightarrow> Inr []
              | Inr shelly_devices \<Rightarrow> Inr shelly_devices)))"

section \<open>The CSV writer\<close>

text \<open>
  \<^verbatim>\<open>csv.DictWriter(csvfile, fieldnames=['id', 'name'])\<close> writes in the default dialect:
  fields separated by a comma, records ended by CR LF, and a field put between double
  quotes, with every double quote in it doubled, when it holds a comma, a double quote,
  a CR or an LF. (A record made of one empty field is written in another way; the
  records written here have two fields.)
\<close>

abbreviation dquote :: char where "dquote \<equiv> CHR 0x22"
abbreviation CR :: char where "CR \<equiv> CHR 0x0D"
abbreviation LF :: char where "LF \<equiv> CHR 0x0A"

definition csv_needs_quotes :: "string \<Rightarrow> bool" where
  "csv_needs_quotes s = list_ex (\<lambda>c. c = CHR '','' \<or> c = dquote \<or> c = CR \<or> c = LF) s"

definition csv_field :: "string \<Rightarrow> string" where
  "csv_field s =
     (if csv_needs_quotes s
      then [dquote] @ concat (map (\<lambda>c. if c = dquote then [dquote, dquote] else [c]) s) @ [dquote]
      else s)"

fun csv_join :: "string list \<Rightarrow> string" where
  "csv_join [] = []"
| "csv_join [f] = f"
| "csv_join (f # g # fs) = f @ '','' @ csv_join (g # fs)"

definition csv_record :: "string list \<Rightarrow> string" where
  "csv_record cells = csv_join (map csv_field cells) @ [CR, LF]"

text \<open>
  The text the writer puts into a cell: a string as it is, \<^verbatim>\<open>None\<close> as the empty
  string, any other value through \<^verbatim>\<open>str()\<close>, which belongs to the Python runtime and
  is a parameter here.
\<close>

fun cell_text :: "(json \<Rightarrow> string) \<Rightarrow> json \<Rightarrow> string" where
  "cell_text f (JStr s) = s"
| "cell_text f JNull = []"
| "cell_text f v = f v"

text \<open>\<^verbatim>\<open>writer.writeheader()\<close> and \<^verbatim>\<open>writer.writerow(entity)\<close>\<close>

definition header_row :: string where
  "header_row = csv_record [''id'', ''name'']"

definition entry_row :: "(json \<Rightarrow> string) \<Rightarrow> device_entry \<Rightarrow> string" where
  "entry_row f entity = csv_record [entry_id entity, cell_text f (entry_name entity)]"

section \<open>\<^verbatim>\<open>export_to_csv\<close>\<close>

text \<open>The file system maps a path to the text of the file there.\<close>

type_synonym files = "string \<rightharpoonup> string"

text \<open>What the function prints about the outcome (progress lines are left out).\<close>

datatype message =
    NothingToExport
  | Exported nat string
  | Verified string
  | NotFound string
  | PermissionDenied string
  | WriteError py_exc
  | MissingUrl
  | MissingToken
  | NoDevicesFound
  | PreviewLine string
  | AndMore nat
  | CouldNotRead
  | UnexpectedError py_exc
  | Traceback py_exc

record export_result =
  returned :: "string option"
  files_after :: files
  printed :: "message list"

text \<open>
  The header and the rows go to the file one call after the other; the call numbered
  \<open>n\<close> is the one that fails when the surroundings say so, and what was written before
  it stays in the file.
\<close>

fun write_rows :: "nat option \<Rightarrow> nat \<Rightarrow> string list \<Rightarrow> string \<Rightarrow> py_exc option \<times> string" where
  "write_rows fails n [] content = (None, content)"
| "write_rows fails n (row # rows) content =
     (if fails = Some n then (Some OSError, content)
      else write_rows fails (Suc n) rows (content @ row))"

text \<open>Lines 119 to 121: the path given, or one made from the time stamp.\<close>

definition output_path :: "world \<Rightarrow> string option \<Rightarrow> string" where
  "output_path w output_file =
     (if \<not> truthy output_file then ''shelly_devices_'' @ clock w @ ''.csv''
      else the output_file)"

definition export_to_csv ::
  "world \<Rightarrow> device_entry list \<Rightarrow> string option \<Rightarrow> files \<Rightarrow> export_result" where
  "export_to_csv w entities output_file fs =
     (if entities = []
      then \<lparr>returned = None, files_after = fs, printed = [NothingToExport]\<rparr>
      else
        (let output_file = output_path w output_file
         in case open_error w output_file of
              Some PermissionError \<Rightarrow>
                \<lparr>returned = None, files_after = fs, printed = [PermissionDenied output_file]\<rparr>
            | Some e \<Rightarrow>
                \<lparr>returned = None, files_after = fs, printed = [WriteError e]\<rparr>
            | None \<Rightarrow>
                (let written = write_rows (write_fails_at w) 0
                                 (header_row # map (entry_row (str_of w)) entities) [];
                     fs' = fs(output_file \<mapsto> snd written)
                 in case fst written of
                      Some e \<Rightarrow>
                        \<lparr>returned = None, files_after = fs', printed = [WriteError e]\<rparr>
                    | None \<Rightarrow>
                        \<lparr>returned = Some output_file, files_after = fs',
                         printed = [Exported (length entities) output_file,
                                    if output_file \<in> dom fs' then Verified output_file
                                    else NotFound output_file]\<rparr>)))"

section \<open>Reading the file back\<close>

text \<open>
  \<^verbatim>\<open>open(output_file, 'r')\<close> reads in text mode: CR LF and a lone CR come out as LF.
  \<^verbatim>\<open>readlines()\<close> cuts after every LF, and \<^verbatim>\<open>line.strip()\<close> drops the white space at
  both ends (below 256 these are 9 to 13, 28 to 32, 133 and 160).
\<close>

fun universal_newlines :: "string \<Rightarrow> string" where
  "universal_newlines [] = []"
| "universal_newlines [c] = [if c = CR then LF else c]"
| "universal_newlines (c # d # cs) =
     (if c = CR \<and> d = LF then LF # universal_newlines cs
      else if c = CR then LF # universal_newlines (d # cs)
      else c # universal_newlines (d # cs))"

fun split_lines :: "string \<Rightarrow> string \<Rightarrow> string list" where
  "split_lines cur [] = (if cur = [] then [] else [cur])"
| "split_lines cur (c # cs) =
     (if c = LF then (cur @ [c]) # split_lines [] cs else split_lines (cur @ [c]) cs)"

definition readlines :: "string \<Rightarrow> string list" where
  "readlines content = split_lines [] (universal_newlines content)"

definition isspace :: "char \<Rightarrow> bool" where
  "isspace c =
     (let n = (of_char c :: nat)
      in (9 \<le> n \<and> n \<le> 13) \<or> (28 \<le> n \<and> n \<le> 32) \<or> n = 133 \<or> n = 160)"

definition strip :: "string \<Rightarrow> string" where
  "strip s = rev (dropWhile isspace (rev (dropWhile isspace s)))"

section \<open>\<^verbatim>\<open>main\<close>\<close>

text \<open>The parsed command line; a flag that was not given is \<^verbatim>\<open>None\<close>.\<close>

record args =
  arg_url :: "string option"
  arg_token :: "string option"
  arg_output :: "string option"

text \<open>
  Lines 164 to 173. \<open>getenv\<close> is \<^verbatim>\<open>os.getenv\<close> after \<^verbatim>\<open>load_dotenv()\<close>. The result is
  the message printed before \<^verbatim>\<open>sys.exit(1)\<close>, or the URL and the token the run goes on
  with.
\<close>

definition main_config :: "args \<Rightarrow> (string \<Rightarrow> string option) \<Rightarrow> message + string \<times> string" where
  "main_config a getenv =
     (let token = py_or (arg_token a) (getenv ''HA_TOKEN'');
          ha_url = py_or (arg_url a) (getenv ''HA_URL'')
      in if \<not> truthy ha_url then Inl MissingUrl
         else if \<not> truthy token then Inl MissingToken
         else Inr (the ha_url, the token))"

record run_result =
  exit_status :: nat
  files_left :: files
  messages :: "message list"

text \<open>Lines 202 to 209: the preview of the written file.\<close>

definition preview :: "files \<Rightarrow> string \<Rightarrow> nat \<Rightarrow> message list" where
  "preview fs output_file n =
     (case fs output_file of
        None \<Rightarrow> [CouldNotRead]
      | Some content \<Rightarrow>
          map (\<lambda>line. PreviewLine (strip line)) (take (min 6 (n + 1)) (readlines content))
          @ (if n > 5 then [AndMore (n - 5)] else []))"

text \<open>
  Lines 175 to 216. The prints of lines 178 and 180 show the URL and the output path
  before the \<^verbatim>\<open>try\<close>: an exception there ends the program with a traceback and
  status 1. An exception that leaves \<^verbatim>\<open>get_shelly_devices\<close> is caught by the handler
  of line 212, which prints it; the run then ends normally.
\<close>

definition main ::
  "world \<Rightarrow> hub \<Rightarrow> (string \<Rightarrow> string option) \<Rightarrow> args \<Rightarrow> files \<Rightarrow> run_result" where
  "main w http getenv a fs =
     (case main_config a getenv of
        Inl msg \<Rightarrow> \<lparr>exit_status = 1, files_left = fs, messages = [msg]\<rparr>
      | Inr (ha_url, token) \<Rightarrow>
          if \<not> can_print w ha_url
             \<or> \<not> can_print w (if truthy (arg_output a) then the (arg_output a) else [])
          then \<lparr>exit_status = 1, files_left = fs, messages = [Traceback ValueError]\<rparr>
          else
          (case get_shelly_devices w http ha_url token of
             Inl e \<Rightarrow> \<lparr>exit_status = 0, files_left = fs, messages = [UnexpectedError e]\<rparr>
           | Inr entities \<Rightarrow>
              if entities = []
              then \<lparr>exit_status = 0, files_left = fs, messages = [NoDevicesFound]\<rparr>
              else
                (let r = export_to_csv w entities (arg_output a) fs
                 in case returned r of
                      None \<Rightarrow> \<lparr>exit_status = 0, files_left = files_after r, messages = printed r\<rparr>
                    | Some output_file \<Rightarrow>
                        \<lparr>exit_status = 0, files_left = files_after r,
                         messages = printed r @ preview (files_after r) output_file (length entities)\<rparr>)))"

section \<open>Notions used to state the filter's properties\<close>

text \<open>
  The identifier the loop reads from a record (\<^verbatim>\<open>entity.get("entity_id", "")\<close>), and
  the dictionary it appends for a record that is kept; \<open>None\<close> where the loop body
  raises instead.
\<close>

definition record_id :: "json \<Rightarrow> string option" where
  "record_id entity =
     (case entity of
        JObj kvs \<Rightarrow>
          (case dict_get kvs ''entity_id'' (JStr '''') of
             JStr eid \<Rightarrow> Some eid
           | _ \<Rightarrow> None)
      | _ \<Rightarrow> None)"

definition entry_of :: "json \<Rightarrow> device_entry option" where
  "entry_of entity =
     (case entity of
        JObj kvs \<Rightarrow>
          (case dict_get kvs ''attributes'' (JObj []) of
             JObj akvs \<Rightarrow>
               (case dict_get kvs ''entity_id'' (JStr '''') of
                  JStr eid \<Rightarrow>
                    Some \<lparr>entry_id = eid,
                          entry_name = dict_get akvs ''friendly_name'' (JStr eid)\<rparr>
                | _ \<Rightarrow> None)
           | _ \<Rightarrow> None)
      | _ \<Rightarrow> None)"

text \<open>The condition of line 87 on an identifier.\<close>

definition wanted :: "string \<Rightarrow> bool" where
  "wanted eid =
     (((startswith eid ''switch.'' \<and> str_in ''shelly'' (lower eid)) \<or> startswith eid ''cover.'')
      \<and> \<not> (str_in ''availability'' (lower eid) \<or> str_in ''connectivity'' (lower eid)))"

text \<open>The entries the loop adds for a list of well-formed records, given the identifiers seen.\<close>

fun kept :: "string set \<Rightarrow> device_entry list \<Rightarrow> device_entry list" where
  "kept seen [] = []"
| "kept seen (d # ds) =
     (if wanted (entry_id d) \<and> entry_id d \<notin> seen
      then d # kept (insert (entry_id d) seen) ds
      else kept seen ds)"

text \<open>
  The selection rule in the specification's words. Two characters are the same letter
  when they differ at most in case; a marker occurs in an identifier, case ignored, when
  some contiguous run of the identifier matches it letter by letter.
\<close>

definition same_letter :: "char \<Rightarrow> char \<Rightarrow> bool" where
  "same_letter c d = (lower_char c = lower_char d)"

definition spec_contains_ci :: "string \<Rightarrow> string \<Rightarrow> bool" where
  "spec_contains_ci marker s = (\<exists>ps w ss. s = ps @ w @ ss \<and> list_all2 same_letter w marker)"

definition spec_includes :: "string \<Rightarrow> bool" where
  "spec_includes i =
     ((prefix ''cover.'' i \<or> (prefix ''switch.'' i \<and> spec_contains_ci ''shelly'' i))
      \<and> \<not> (spec_contains_ci ''availability'' i \<or> spec_contains_ci ''connectivity'' i))"

text \<open>
  The \<^verbatim>\<open>friendly_name\<close> attribute of a record in the specification's words: absent when
  the record has no attributes mapping or the mapping has no such key.
\<close>

definition spec_friendly_name :: "(string \<times> json) list \<Rightarrow> json option" where
  "spec_friendly_name kvs =
     (case map_of kvs ''attributes'' of
        Some (JObj akvs) \<Rightarrow> map_of akvs ''friendly_name''
      | _ \<Rightarrow> None)"

text \<open>
  The record shapes the loop puts up with: an object whose \<^verbatim>\<open>entity_id\<close> is missing or
  a string and whose \<^verbatim>\<open>attributes\<close> is missing or an object.
\<close>

definition tolerated :: "json \<Rightarrow> bool" where
  "tolerated entity =
     (case entity of
        JObj kvs \<Rightarrow>
          (case map_of kvs ''entity_id'' of None \<Rightarrow> True | Some (JStr s) \<Rightarrow> True | _ \<Rightarrow> False)
          \<and> (case map_of kvs ''attributes'' of None \<Rightarrow> True | Some (JObj a) \<Rightarrow> True | _ \<Rightarrow> False)
      | _ \<Rightarrow> False)"

text \<open>A small payload and what the filter returns for it.\<close>

definition sample_records :: "json list" where
  "sample_records =
     [JObj [(''entity_id'', JStr ''switch.Shelly_1''),
            (''attributes'', JObj [(''friendly_name'', JStr ''Kitchen'')])],
      JObj [(''entity_id'', JStr ''switch.plug'')],
      JObj [(''entity_id'', JStr ''cover.garage''), (''attributes'', JObj [])],
      JObj [(''entity_id'', JStr ''cover.garage_Connectivity'')],
      JObj [(''entity_id'', JStr ''switch.Shelly_1''),
            (''attributes'', JObj [(''friendly_name'', JStr ''Other'')])],
      JObj [(''state'', JStr ''on'')]]"

definition sample_entries :: "device_entry list" where
  "sample_entries =
     [\<lparr>entry_id = ''switch.Shelly_1'', entry_name = JStr ''Kitchen''\<rparr>,
      \<lparr>entry_id = ''cover.garage'', entry_name = JStr ''cover.garage''\<rparr>]"



definition quiet_world :: world where
  "quiet_world =
     \<lparr>clock = ''20240101_120000'', open_error = (\<lambda>p. None), write_fails_at = None,
      str_of = (\<lambda>v. ''?''),
      encodes = (\<lambda>c. True)\<rparr>"

text \<open>The print of line 91 succeeds for an entry.\<close>

definition shown :: "world \<Rightarrow> device_entry \<Rightarrow> bool" where
  "shown w d =
     can_print w (''Found Shelly device: '' @ entry_id d @ '' (''
                  @ py_format (str_of w) (entry_name d) @ '')'')"

text \<open>A record whose identifier and name, as the loop reads them, can be printed.\<close>

definition presentable :: "world \<Rightarrow> json \<Rightarrow> bool" where
  "presentable w entity = (case entry_of entity of None \<Rightarrow> True | Some d \<Rightarrow> shown w d)"

text \<open>
  The hub answers the health check with status 200 and the states request with status
  200 and a body that parses to the given payload.
\<close>

definition answers :: "hub \<Rightarrow> string \<Rightarrow> string \<Rightarrow> json \<Rightarrow> bool" where
  "answers http ha_url token payload =
     ((case http (base_url ha_url @ ''/api/config'') token of
         Failed \<Rightarrow> False
       | Reply status body \<Rightarrow> status = 200)
      \<and> http (base_url ha_url @ ''/api/states'') token = Reply 200 (Some payload))"

text \<open>Surroundings whose standard output encodes ASCII only.\<close>

definition ascii_world :: world where
  "ascii_world = quiet_world\<lparr>encodes := (\<lambda>c. False)\<rparr>"



text \<open>
  Hubs for the examples: one that answers the health check with \<open>cfg\<close> and every other
  request with \<open>sts\<close>, and the address it is reached at.
\<close>

definition hub_with :: "http_reply \<Rightarrow> http_reply \<Rightarrow> hub" where
  "hub_with cfg sts = (\<lambda>url token. if url = ''http://hub:8123/api/config'' then cfg else sts)"

definition hub_address :: string where
  "hub_address = ''http://hub:8123/''"

text \<open>
  The example hub serving the small payload, and three more payloads: a cover followed
  by a value that is no object, a Shelly switch given twice and followed by a number,
  and a single lamp.
\<close>

definition sample_hub :: hub where
  "sample_hub = hub_with (Reply 200 None) (Reply 200 (Some (JArr sample_records)))"




text \<open>A command line and an environment that both give a URL and a token, and ones that give none.\<close>

definition both_set_args :: args where
  "both_set_args =
     \<lparr>arg_url = Some ''http://flag:8123'', arg_token = Some ''flag-token'', arg_output = None\<rparr>"

definition both_set_env :: "string \<Rightarrow> string option" where
  "both_set_env = map_of [(''HA_URL'', ''http://env:8123''), (''HA_TOKEN'', ''env-token'')]"

definition no_args :: args where
  "no_args = \<lparr>arg_url = None, arg_token = None, arg_output = None\<rparr>"

definition no_env :: "string \<Rightarrow> string option" where
  "no_env = map_of []"

section \<open>String facts\<close>

lemmas char_eval = lower_def lower_char_def char_of_def bit_Suc_0_iff

lemma startswith_prefix: "startswith s p = prefix p s"
  by (induction s p rule: startswith.induct) auto

lemma str_in_sublist: "str_in sub s = sublist sub s"
  by (induction s) (auto simp: startswith_prefix sublist_Cons_right)

lemma same_letter_all2: "list_all2 same_letter w m = (map lower_char w = map lower_char m)"
proof (induction w arbitrary: m)
  case Nil
  then show ?case by auto
next
  case (Cons c w)
  then show ?case by (cases m) (auto simp: same_letter_def)
qed

lemma sublist_map_iff:
  "sublist m (map f s) = (\<exists>ps w ss. s = ps @ w @ ss \<and> map f w = m)"
proof
  assume "sublist m (map f s)"
  then obtain ps' ss' where "map f s = ps' @ m @ ss'"
    by (auto simp: sublist_def)
  then obtain us vs where s: "s = us @ vs" and "m @ ss' = map f vs"
    by (auto simp: map_eq_append_conv)
  then obtain w ss where "vs = w @ ss" and "map f w = m"
    by (auto simp: append_eq_map_conv)
  with s show "\<exists>ps w ss. s = ps @ w @ ss \<and> map f w = m"
    by blast
next
  assume "\<exists>ps w ss. s = ps @ w @ ss \<and> map f w = m"
  then obtain ps w ss where "s = ps @ w @ ss" and "map f w = m"
    by blast
  then have "map f s = map f ps @ m @ map f ss"
    by simp
  then show "sublist m (map f s)"
    unfolding sublist_def by blast
qed

lemma str_in_lower:
  "map lower_char m = m \<Longrightarrow> str_in m (lower s) = spec_contains_ci m s"
  by (simp add: str_in_sublist lower_def sublist_map_iff spec_contains_ci_def same_letter_all2)

lemma wanted_spec: "wanted i = spec_includes i"
proof -
  have a: "map lower_char ''shelly'' = ''shelly''"
    by (simp add: char_eval)
  have b: "map lower_char ''availability'' = ''availability''"
    by (simp add: char_eval)
  have c: "map lower_char ''connectivity'' = ''connectivity''"
    by (simp add: char_eval)
  show ?thesis
    unfolding wanted_def spec_includes_def
    by (simp only: startswith_prefix str_in_lower [OF a] str_in_lower [OF b] str_in_lower [OF c]) blast
qed

section \<open>The loop, record by record\<close>

lemma can_print_append [simp]:
  "can_print w (a @ b) = (can_print w a \<and> can_print w b)"
  by (simp add: can_print_def)

lemma can_print_Nil [simp]: "can_print w []"
  by (simp add: can_print_def)

lemma can_print_Cons [simp]:
  "can_print w (c # cs) = (((of_char c :: nat) < 128 \<or> encodes w c) \<and> can_print w cs)"
  by (simp add: can_print_def)

lemma can_print_base_url: "can_print w ha_url \<Longrightarrow> can_print w (base_url ha_url)"
  by (auto simp: can_print_def base_url_def list_all_iff dest: in_set_butlastD)

lemma can_print_config: "can_print w ''Testing API connection at: ''"
  by (simp add: can_print_def)

lemma can_print_states: "can_print w ''Getting entities from: ''"
  by (simp add: can_print_def)

lemma can_print_paths: "can_print w ''/api/config''" "can_print w ''/api/states''"
  by (simp_all add: can_print_def)

lemma filter_step_entry_of:
  "filter_step w e st =
     (case entry_of e of
        None \<Rightarrow> Inl AttributeError
      | Some d \<Rightarrow>
          if wanted (entry_id d) \<and> entry_id d \<notin> snd st
          then (if shown w d then Inr (fst st @ [d], insert (entry_id d) (snd st))
                else Inl ValueError)
          else Inr st)"
  by (auto simp: filter_step_def entry_of_def wanted_def shown_def Let_def split: json.splits)

lemma entry_of_record_id: "entry_of r = Some d \<Longrightarrow> record_id r = Some (entry_id d)"
  by (auto simp: entry_of_def record_id_def split: json.splits)

lemma filter_loop_kept:
  "map entry_of rs = map Some ds \<Longrightarrow> list_all (shown w) (kept (snd st) ds) \<Longrightarrow>
   filter_loop w rs st =
     Inr (fst st @ kept (snd st) ds, snd st \<union> entry_id ` set (kept (snd st) ds))"
proof (induction rs arbitrary: ds st)
  case Nil
  then show ?case by simp
next
  case (Cons r rs)
  from Cons.prems(1) obtain d ds' where ds: "ds = d # ds'" and d: "entry_of r = Some d"
    and rest: "map entry_of rs = map Some ds'"
    by (cases ds) auto
  show ?case
  proof (cases "wanted (entry_id d) \<and> entry_id d \<notin> snd st")
    case True
    with Cons.prems(2) ds have s: "shown w d"
      and k: "list_all (shown w) (kept (insert (entry_id d) (snd st)) ds')"
      by simp_all
    from Cons.IH [OF rest, of "(fst st @ [d], insert (entry_id d) (snd st))"] k True s
    show ?thesis
      by (simp add: ds d filter_step_entry_of)
  next
    case False
    with Cons.prems(2) ds have k: "list_all (shown w) (kept (snd st) ds')"
      by auto
    from Cons.IH [OF rest, of st] k False show ?thesis
      by (auto simp: ds d filter_step_entry_of)
  qed
qed

lemma filter_loop_Inr:
  "filter_loop w rs st = Inr st' \<Longrightarrow>
   \<exists>ds. map entry_of rs = map Some ds \<and> fst st' = fst st @ kept (snd st) ds"
proof (induction rs arbitrary: st)
  case Nil
  then show ?case by simp
next
  case (Cons r rs)
  from Cons.prems obtain d where d: "entry_of r = Some d"
    by (cases "entry_of r") (auto simp: filter_step_entry_of)
  show ?case
  proof (cases "wanted (entry_id d) \<and> entry_id d \<notin> snd st")
    case True
    with Cons.prems d
    have run: "filter_loop w rs (fst st @ [d], insert (entry_id d) (snd st)) = Inr st'"
      by (auto simp: filter_step_entry_of split: if_splits)
    from Cons.IH [OF run] obtain ds where "map entry_of rs = map Some ds"
      and "fst st' = (fst st @ [d]) @ kept (insert (entry_id d) (snd st)) ds"
      by auto
    with d True have "map entry_of (r # rs) = map Some (d # ds)
        \<and> fst st' = fst st @ kept (snd st) (d # ds)"
      by simp
    then show ?thesis by blast
  next
    case False
    with Cons.prems d have run: "filter_loop w rs st = Inr st'"
      by (auto simp: filter_step_entry_of)
    from Cons.IH [OF run] obtain ds where "map entry_of rs = map Some ds"
      and "fst st' = fst st @ kept (snd st) ds"
      by auto
    with d False have "map entry_of (r # rs) = map Some (d # ds)
        \<and> fst st' = fst st @ kept (snd st) (d # ds)"
      by auto
    then show ?thesis by blast
  qed
qed

lemma filter_entities_kept:
  "filter_entities w (JArr rs) = Inr out \<Longrightarrow>
   \<exists>ds. map entry_of rs = map Some ds \<and> out = kept {} ds"
proof -
  assume a: "filter_entities w (JArr rs) = Inr out"
  then obtain st where st: "filter_loop w rs ([], {}) = Inr st" and out: "out = fst st"
    by (auto simp: filter_entities_def split: sum.splits)
  from filter_loop_Inr [OF st] out show ?thesis
    by simp
qed

lemma filter_entities_run:
  "map entry_of rs = map Some ds \<Longrightarrow> list_all (shown w) (kept {} ds) \<Longrightarrow>
   filter_entities w (JArr rs) = Inr (kept {} ds)"
  using filter_loop_kept [of rs ds w "([], {})"] by (simp add: filter_entities_def)

lemma kept_ids:
  "entry_id ` set (kept seen ds) = {i \<in> entry_id ` set ds. wanted i \<and> i \<notin> seen}"
  by (induction ds arbitrary: seen) auto



lemma kept_none:
  "i \<in> seen \<Longrightarrow> filter (\<lambda>d. entry_id d = i) (kept seen ds) = []"
proof -
  assume "i \<in> seen"
  then have "i \<notin> entry_id ` set (kept seen ds)"
    by (simp add: kept_ids)
  then show ?thesis
    by (auto simp: filter_empty_conv)
qed

lemma kept_first:
  "find (\<lambda>d. entry_id d = i) ds = Some d \<Longrightarrow> wanted i \<Longrightarrow> i \<notin> seen \<Longrightarrow>
   filter (\<lambda>d. entry_id d = i) (kept seen ds) = [d]"
proof (induction ds arbitrary: seen)
  case Nil
  then show ?case by simp
next
  case (Cons x xs)
  show ?case
  proof (cases "entry_id x = i")
    case True
    with Cons.prems show ?thesis
      by (simp add: kept_none)
  next
    case False
    with Cons.prems have f: "find (\<lambda>d. entry_id d = i) xs = Some d"
      by simp
    from False Cons.prems have "i \<notin> insert (entry_id x) seen"
      by auto
    from Cons.IH [OF f Cons.prems(2) this] Cons.IH [OF f Cons.prems(2) Cons.prems(3)] False
    show ?thesis by simp
  qed
qed

lemma find_entry_of:
  "map entry_of rs = map Some ds \<Longrightarrow> find (\<lambda>r. record_id r = Some i) rs = Some r \<Longrightarrow>
   \<exists>d. entry_of r = Some d \<and> find (\<lambda>d. entry_id d = i) ds = Some d"
proof (induction rs arbitrary: ds)
  case Nil
  then show ?case by simp
next
  case (Cons x xs)
  then obtain d ds' where ds: "ds = d # ds'" and d: "entry_of x = Some d"
    and rest: "map entry_of xs = map Some ds'"
    by (cases ds) auto
  show ?case
  proof (cases "record_id x = Some i")
    case True
    with Cons.prems d ds entry_of_record_id [OF d] show ?thesis
      by simp
  next
    case False
    with Cons.prems have "find (\<lambda>r. record_id r = Some i) xs = Some r"
      by simp
    from Cons.IH [OF rest this] False entry_of_record_id [OF d] ds show ?thesis
      by simp
  qed
qed


lemma kept_mem_first:
  assumes "d \<in> set (kept seen ds)"
  shows "find (\<lambda>x. entry_id x = entry_id d) ds = Some d"
proof -
  from assms have "entry_id d \<in> entry_id ` set (kept seen ds)"
    by blast
  then have w: "wanted (entry_id d)" and s: "entry_id d \<notin> seen"
    and "entry_id d \<in> entry_id ` set ds"
    by (auto simp: kept_ids)
  then obtain d' where f: "find (\<lambda>x. entry_id x = entry_id d) ds = Some d'"
    by (cases "find (\<lambda>x. entry_id x = entry_id d) ds") (auto simp: find_None_iff)
  from assms have "d \<in> set (filter (\<lambda>x. entry_id x = entry_id d) (kept seen ds))"
    by simp
  with kept_first [OF f w s] have "d \<in> set [d']"
    by simp
  with f show ?thesis by simp
qed

lemma find_record_of_entry:
  "map entry_of rs = map Some ds \<Longrightarrow> find (\<lambda>x. entry_id x = i) ds = Some d \<Longrightarrow>
   \<exists>r. find (\<lambda>r. record_id r = Some i) rs = Some r \<and> entry_of r = Some d"
proof (induction rs arbitrary: ds)
  case Nil
  then show ?case by simp
next
  case (Cons x xs)
  then obtain e ds' where ds: "ds = e # ds'" and e: "entry_of x = Some e"
    and rest: "map entry_of xs = map Some ds'"
    by (cases ds) auto
  show ?case
  proof (cases "entry_id e = i")
    case True
    with Cons.prems ds e entry_of_record_id [OF e] show ?thesis
      by simp
  next
    case False
    with Cons.prems ds have "find (\<lambda>x. entry_id x = i) ds' = Some d"
      by simp
    from Cons.IH [OF rest this] False entry_of_record_id [OF e] show ?thesis
      by simp
  qed
qed

lemma entry_of_name:
  "entry_of (JObj kvs) = Some d \<Longrightarrow>
   entry_name d = (case spec_friendly_name kvs of Some v \<Rightarrow> v | None \<Rightarrow> JStr (entry_id d))"
  by (auto simp: entry_of_def spec_friendly_name_def dict_get_def
      split: option.splits json.splits)

lemma entry_of_JObj: "entry_of r = Some d \<Longrightarrow> \<exists>kvs. r = JObj kvs"
  by (cases r) (auto simp: entry_of_def)

lemma tolerated_entry_of:
  "tolerated r \<Longrightarrow> \<exists>d. entry_of r = Some d"
  by (auto simp: tolerated_def entry_of_def dict_get_def split: json.splits option.splits)

lemma tolerated_all_entry_of:
  "\<forall>r\<in>set rs. tolerated r \<Longrightarrow> \<exists>ds. map entry_of rs = map Some ds"
proof (induction rs)
  case Nil
  then show ?case by simp
next
  case (Cons r rs)
  then obtain ds where ds: "map entry_of rs = map Some ds"
    by auto
  from Cons.prems tolerated_entry_of [of r] obtain d where "entry_of r = Some d"
    by auto
  with ds have "map entry_of (r # rs) = map Some (d # ds)"
    by simp
  then show ?case by blast
qed

lemma not_wanted_empty: "\<not> wanted []"
  by (simp add: wanted_def)

section \<open>The whole function\<close>

lemma kept_all: "list_all P ds \<Longrightarrow> list_all P (kept seen ds)"
  by (induction ds arbitrary: seen) auto

lemma presentable_shown:
  "map entry_of rs = map Some ds \<Longrightarrow> list_all (presentable w) rs \<Longrightarrow> list_all (shown w) ds"
proof (induction rs arbitrary: ds)
  case Nil
  then show ?case by simp
next
  case (Cons r rs)
  from Cons.prems(1) obtain d ds' where ds: "ds = d # ds'" and d: "entry_of r = Some d"
    and rest: "map entry_of rs = map Some ds'"
    by (cases ds) auto
  from Cons.prems(2) have p: "presentable w r" and ps: "list_all (presentable w) rs"
    by simp_all
  from p d have "shown w d"
    by (simp add: presentable_def)
  with Cons.IH [OF rest ps] ds show ?case
    by simp
qed

lemma tolerated_list_entry_of:
  "list_all tolerated rs \<Longrightarrow> \<exists>ds. map entry_of rs = map Some ds"
  by (rule tolerated_all_entry_of) (simp add: list_all_iff)


lemma gsd_answers:
  assumes "answers http ha_url token payload" and "can_print w ha_url"
  shows "get_shelly_devices w http ha_url token =
           (case filter_entities w payload of Inl e \<Rightarrow> Inr [] | Inr out \<Rightarrow> Inr out)"
proof -
  from assms(2) have b: "can_print w (base_url ha_url)"
    by (rule can_print_base_url)
  from assms(1) obtain body
    where c: "http (base_url ha_url @ ''/api/config'') token = Reply 200 body"
      and s: "http (base_url ha_url @ ''/api/states'') token = Reply 200 (Some payload)"
    by (auto simp: answers_def split: http_reply.splits)
  show ?thesis
    by (simp add: get_shelly_devices_def fetch_states_def Let_def b c s
        can_print_config can_print_states can_print_paths)
qed

lemma gsd_run:
  assumes "answers http ha_url token (JArr rs)" and "can_print w ha_url"
    and "list_all tolerated rs" and "list_all (presentable w) rs"
  shows "\<exists>ds. map entry_of rs = map Some ds
           \<and> get_shelly_devices w http ha_url token = Inr (kept {} ds)"
proof -
  from tolerated_list_entry_of [OF assms(3)] obtain ds
    where ds: "map entry_of rs = map Some ds"
    by blast
  from presentable_shown [OF ds assms(4)] have "list_all (shown w) (kept {} ds)"
    by (rule kept_all)
  from filter_entities_run [OF ds this] gsd_answers [OF assms(1) assms(2)]
  have "get_shelly_devices w http ha_url token = Inr (kept {} ds)"
    by simp
  with ds show ?thesis by blast
qed


lemma gsd_out:
  assumes "answers http ha_url token (JArr rs)"
    and "get_shelly_devices w http ha_url token = Inr out" and "out \<noteq> []"
  shows "\<exists>ds. map entry_of rs = map Some ds \<and> out = kept {} ds"
proof -
  from assms(1) have s: "http (base_url ha_url @ ''/api/states'') token = Reply 200 (Some (JArr rs))"
    by (simp add: answers_def)
  from assms(2) assms(3) obtain payload
    where f: "fetch_states w http ha_url token = Entities payload"
      and r: "filter_entities w payload = Inr out"
    by (auto simp: get_shelly_devices_def split: if_splits fetched.splits sum.splits)
  from f s have "payload = JArr rs"
    by (auto simp: fetch_states_def Let_def split: http_reply.splits if_splits option.splits)
  with r show ?thesis
    by (simp add: filter_entities_kept)
qed

lemma can_print_quiet: "can_print quiet_world text"
  by (simp add: can_print_def quiet_world_def list_all_iff)

lemma presentable_quiet: "presentable quiet_world r"
  by (simp add: presentable_def shown_def can_print_quiet split: option.splits)

section \<open>The writer and the exporter\<close>


lemma write_rows_late:
  "n + length rows \<le> k \<Longrightarrow> write_rows (Some k) n rows content = (None, content @ concat rows)"
  by (induction rows arbitrary: n content) auto

lemma write_rows_early:
  "k < n \<Longrightarrow> write_rows (Some k) n rows content = (None, content @ concat rows)"
  by (induction rows arbitrary: n content) auto










section \<open>The example hub\<close>

lemma hub_address_urls:
  "base_url hub_address @ ''/api/config'' = ''http://hub:8123/api/config''"
  "base_url hub_address @ ''/api/states'' = ''http://hub:8123/api/states''"
  by (simp_all add: base_url_def hub_address_def endswith_def)

lemma hub_with_replies:
  "hub_with cfg sts (base_url hub_address @ ''/api/config'') token = cfg"
  "hub_with cfg sts (base_url hub_address @ ''/api/states'') token = sts"
  by (simp_all add: hub_address_urls hub_with_def)

lemma answers_hub_with:
  "answers (hub_with (Reply 200 b) (Reply 200 (Some payload))) hub_address token payload"
  by (simp add: answers_def hub_with_replies)

lemma can_print_hub_address: "can_print w hub_address"
  by (simp add: hub_address_def)

lemma hub_with_run:
  "get_shelly_devices quiet_world (hub_with (Reply 200 b) (Reply 200 (Some payload)))
     hub_address token
   = (case filter_entities quiet_world payload of Inl e \<Rightarrow> Inr [] | Inr out \<Rightarrow> Inr out)"
  by (rule gsd_answers [OF answers_hub_with can_print_hub_address])

lemma sample_filter: "filter_entities quiet_world (JArr sample_records) = Inr sample_entries"
  by (simp add: sample_records_def sample_entries_def filter_entities_def filter_step_def
      dict_get_def char_eval can_print_quiet)

lemma sample_run: "get_shelly_devices quiet_world sample_hub hub_address ''t'' = Inr sample_entries"
  by (simp add: sample_hub_def hub_with_run sample_filter)

lemma sample_answers: "answers sample_hub hub_address ''t'' (JArr sample_records)"
  unfolding sample_hub_def by (rule answers_hub_with)

lemma sample_tolerated: "list_all tolerated sample_records"
  by (simp add: sample_records_def tolerated_def)

lemma sample_presentable: "list_all (presentable quiet_world) sample_records"
  by (simp add: list_all_iff presentable_quiet)

lemma includes_shelly_1: "spec_includes ''switch.Shelly_1''"
  unfolding wanted_spec [symmetric] by (simp add: wanted_def char_eval)

section \<open>Properties of the filter\<close>







text \<open>
  C9. Every entry the function returns was built from the first record with its
  identifier, and its name is the \<^verbatim>\<open>friendly_name\<close> attribute of that record when the
  record has one, and the identifier itself when the attribute or the whole attributes
  mapping is absent. And when both requests succeed, the URL can be printed and every
  record of the payload is well-formed and printable, the first record with an
  identifier that the rule selects does give such an entry in the returned list.
\<close>

theorem name_projection:
  "(answers http ha_url token (JArr rs) \<and> get_shelly_devices w http ha_url token = Inr out
      \<and> d \<in> set out \<longrightarrow>
      (\<exists>kvs. find (\<lambda>r. record_id r = Some (entry_id d)) rs = Some (JObj kvs)
         \<and> entry_name d = (case spec_friendly_name kvs of
                             Some v \<Rightarrow> v
                           | None \<Rightarrow> JStr (entry_id d))))
   \<and> (answers http ha_url token (JArr rs) \<and> can_print w ha_url
        \<and> list_all tolerated rs \<and> list_all (presentable w) rs
        \<and> find (\<lambda>r. record_id r = Some i) rs = Some (JObj kvs') \<and> spec_includes i \<longrightarrow>
      (\<exists>out'. get_shelly_devices w http ha_url token = Inr out'
         \<and> \<lparr>entry_id = i,
             entry_name = (case spec_friendly_name kvs' of
                             Some v \<Rightarrow> v
                           | None \<Rightarrow> JStr i)\<rparr> \<in> set out'))"
proof (intro conjI impI)
  assume a: "answers http ha_url token (JArr rs)
      \<and> get_shelly_devices w http ha_url token = Inr out \<and> d \<in> set out"
  then have ne: "out \<noteq> []" by auto
  from a have a1: "answers http ha_url token (JArr rs)"
    and a2: "get_shelly_devices w http ha_url token = Inr out"
    by simp_all
  have "\<exists>ds. map entry_of rs = map Some ds \<and> out = kept {} ds"
    by (rule gsd_out [OF a1 a2 ne])
  then obtain ds where ds: "map entry_of rs = map Some ds" and out: "out = kept {} ds"
    by blast
  from a have "d \<in> set (kept {} ds)"
    by (simp add: out)
  then have "find (\<lambda>x. entry_id x = entry_id d) ds = Some d"
    by (rule kept_mem_first)
  from find_record_of_entry [OF ds this] obtain r
    where f: "find (\<lambda>r. record_id r = Some (entry_id d)) rs = Some r"
      and e: "entry_of r = Some d"
    by blast
  from entry_of_JObj [OF e] obtain kvs where r: "r = JObj kvs"
    by blast
  from e have "entry_name d = (case spec_friendly_name kvs of
                                 Some v \<Rightarrow> v | None \<Rightarrow> JStr (entry_id d))"
    unfolding r by (rule entry_of_name)
  with f r show "\<exists>kvs. find (\<lambda>r. record_id r = Some (entry_id d)) rs = Some (JObj kvs)
         \<and> entry_name d = (case spec_friendly_name kvs of
                             Some v \<Rightarrow> v
                           | None \<Rightarrow> JStr (entry_id d))"
    by blast
next
  assume a: "answers http ha_url token (JArr rs) \<and> can_print w ha_url
        \<and> list_all tolerated rs \<and> list_all (presentable w) rs
        \<and> find (\<lambda>r. record_id r = Some i) rs = Some (JObj kvs') \<and> spec_includes i"
  then have "\<exists>ds. map entry_of rs = map Some ds
           \<and> get_shelly_devices w http ha_url token = Inr (kept {} ds)"
    by (intro gsd_run) simp_all
  then obtain ds where ds: "map entry_of rs = map Some ds"
      and run: "get_shelly_devices w http ha_url token = Inr (kept {} ds)"
    by blast
  from a have f: "find (\<lambda>r. record_id r = Some i) rs = Some (JObj kvs')"
    by simp
  from find_entry_of [OF ds f] obtain d
    where d: "entry_of (JObj kvs') = Some d" and fd: "find (\<lambda>d. entry_id d = i) ds = Some d"
    by blast
  from a have "wanted i" by (simp add: wanted_spec)
  from kept_first [OF fd this, of "{}"]
  have "d \<in> set (filter (\<lambda>d. entry_id d = i) (kept {} ds))"
    by simp
  then have m: "d \<in> set (kept {} ds)"
    by simp
  from fd have i: "entry_id d = i"
    by (auto simp: find_Some_iff)
  from entry_of_name [OF d]
  have n: "entry_name d = (case spec_friendly_name kvs' of Some v \<Rightarrow> v | None \<Rightarrow> JStr i)"
    by (simp only: i)
  have "\<lparr>entry_id = entry_id d, entry_name = entry_name d\<rparr> = d"
    by (cases d) simp
  with m have "\<lparr>entry_id = entry_id d, entry_name = entry_name d\<rparr> \<in> set (kept {} ds)"
    by (simp only:)
  then have "\<lparr>entry_id = i,
             entry_name = (case spec_friendly_name kvs' of Some v \<Rightarrow> v | None \<Rightarrow> JStr i)\<rparr>
           \<in> set (kept {} ds)"
    by (simp only: i n)
  with run show "\<exists>out'. get_shelly_devices w http ha_url token = Inr out'
         \<and> \<lparr>entry_id = i,
             entry_name = (case spec_friendly_name kvs' of
                             Some v \<Rightarrow> v
                           | None \<Rightarrow> JStr i)\<rparr> \<in> set out'"
    by blast
qed

theorem name_projection_witness:
  "answers sample_hub hub_address ''t'' (JArr sample_records)
   \<and> can_print quiet_world hub_address
   \<and> list_all tolerated sample_records
   \<and> list_all (presentable quiet_world) sample_records
   \<and> get_shelly_devices quiet_world sample_hub hub_address ''t'' = Inr sample_entries
   \<and> find (\<lambda>r. record_id r = Some ''switch.Shelly_1'') sample_records
       = Some (JObj [(''entity_id'', JStr ''switch.Shelly_1''),
                     (''attributes'', JObj [(''friendly_name'', JStr ''Kitchen'')])])
   \<and> \<lparr>entry_id = ''switch.Shelly_1'', entry_name = JStr ''Kitchen''\<rparr> \<in> set sample_entries
   \<and> \<lparr>entry_id = ''cover.garage'', entry_name = JStr ''cover.garage''\<rparr> \<in> set sample_entries
   \<and> (\<exists>kvs. find (\<lambda>r. record_id r = Some ''cover.garage'') sample_records = Some (JObj kvs)
          \<and> spec_friendly_name kvs = None)"
proof -
  note proj = name_projection
    [where http = sample_hub and ha_url = hub_address and token = "''t''" and w = quiet_world
       and rs = sample_records and out = sample_entries
       and d = "\<lparr>entry_id = ''cover.garage'', entry_name = JStr ''cover.garage''\<rparr>"
       and i = "''switch.Shelly_1''"
       and kvs' = "[(''entity_id'', JStr ''switch.Shelly_1''),
                    (''attributes'', JObj [(''friendly_name'', JStr ''Kitchen'')])]"]
  have f: "find (\<lambda>r. record_id r = Some ''switch.Shelly_1'') sample_records
       = Some (JObj [(''entity_id'', JStr ''switch.Shelly_1''),
                     (''attributes'', JObj [(''friendly_name'', JStr ''Kitchen'')])])"
    by (simp add: sample_records_def record_id_def dict_get_def)
  have m: "\<lparr>entry_id = ''cover.garage'', entry_name = JStr ''cover.garage''\<rparr>
             \<in> set sample_entries"
    by (simp add: sample_entries_def)
  have h1: "answers sample_hub hub_address ''t'' (JArr sample_records)
      \<and> get_shelly_devices quiet_world sample_hub hub_address ''t'' = Inr sample_entries
      \<and> \<lparr>entry_id = ''cover.garage'', entry_name = JStr ''cover.garage''\<rparr> \<in> set sample_entries"
    by (intro conjI sample_answers sample_run m)
  from proj [THEN conjunct1] h1 obtain kvs
    where g: "find (\<lambda>r. record_id r = Some ''cover.garage'') sample_records = Some (JObj kvs)"
    by auto
  have "find (\<lambda>r. record_id r = Some ''cover.garage'') sample_records
          = Some (JObj [(''entity_id'', JStr ''cover.garage''), (''attributes'', JObj [])])"
    by (simp add: sample_records_def record_id_def dict_get_def)
  with g have "spec_friendly_name kvs = None"
    by (auto simp: spec_friendly_name_def)
  with g have 1: "\<exists>kvs. find (\<lambda>r. record_id r = Some ''cover.garage'') sample_records
                       = Some (JObj kvs) \<and> spec_friendly_name kvs = None"
    by blast
  have h2: "answers sample_hub hub_address ''t'' (JArr sample_records)
        \<and> can_print quiet_world hub_address
        \<and> list_all tolerated sample_records \<and> list_all (presentable quiet_world) sample_records
        \<and> find (\<lambda>r. record_id r = Some ''switch.Shelly_1'') sample_records
           = Some (JObj [(''entity_id'', JStr ''switch.Shelly_1''),
                         (''attributes'', JObj [(''friendly_name'', JStr ''Kitchen'')])])
        \<and> spec_includes ''switch.Shelly_1''"
    by (intro conjI sample_answers can_print_hub_address sample_tolerated sample_presentable
        f includes_shelly_1)
  from proj [THEN conjunct2] h2 obtain out'
    where "get_shelly_devices quiet_world sample_hub hub_address ''t'' = Inr out'"
      and "\<lparr>entry_id = ''switch.Shelly_1'',
            entry_name = (case spec_friendly_name
                                 [(''entity_id'', JStr ''switch.Shelly_1''),
                                  (''attributes'', JObj [(''friendly_name'', JStr ''Kitchen'')])] of
                            Some v \<Rightarrow> v | None \<Rightarrow> JStr ''switch.Shelly_1'')\<rparr> \<in> set out'"
    by blast
  with sample_run
  have 2: "\<lparr>entry_id = ''switch.Shelly_1'', entry_name = JStr ''Kitchen''\<rparr> \<in> set sample_entries"
    by (simp add: spec_friendly_name_def)
  show ?thesis
    by (intro conjI sample_answers can_print_hub_address sample_tolerated sample_presentable
        sample_run f 2 m 1)
qed

text \<open>
  C10. Records with missing fields do not make the function fail. When both requests
  succeed, the URL can be printed, and every record is an object whose \<^verbatim>\<open>entity_id\<close> is
  missing or a string and whose \<^verbatim>\<open>attributes\<close> is missing or an object, with
  identifier and name printable, the loop returns a list, the function returns that
  list, and the empty identifier is not in it. A record without \<^verbatim>\<open>entity_id\<close> is read
  as having the empty identifier and leaves the loop state as it was, whatever can be
  printed. A record without \<^verbatim>\<open>attributes\<close> is processed exactly as the same record with
  an empty attributes mapping, and the loop body returns normally on it when its
  identifier can be printed.
\<close>

theorem filter_total:
  "(answers http ha_url token (JArr rs) \<and> can_print w ha_url
      \<and> list_all tolerated rs \<and> list_all (presentable w) rs \<longrightarrow>
      (\<exists>out. filter_entities w (JArr rs) = Inr out
             \<and> get_shelly_devices w http ha_url token = Inr out
             \<and> [] \<notin> entry_id ` set out))
   \<and> (tolerated (JObj kvs) \<and> map_of kvs ''entity_id'' = None \<longrightarrow>
        record_id (JObj kvs) = Some [] \<and> filter_step w (JObj kvs) st = Inr st)
   \<and> (map_of kvs ''attributes'' = None \<longrightarrow>
        filter_step w (JObj kvs) st = filter_step w (JObj ((''attributes'', JObj []) # kvs)) st)
   \<and> (tolerated (JObj kvs) \<and> presentable w (JObj kvs) \<and> map_of kvs ''attributes'' = None \<longrightarrow>
        (\<exists>st'. filter_step w (JObj kvs) st = Inr st'))"
proof (intro conjI impI)
  assume a: "answers http ha_url token (JArr rs) \<and> can_print w ha_url
      \<and> list_all tolerated rs \<and> list_all (presentable w) rs"
  then have a1: "answers http ha_url token (JArr rs)" and a2: "can_print w ha_url"
    and a3: "list_all tolerated rs" and a4: "list_all (presentable w) rs"
    by simp_all
  from tolerated_list_entry_of [OF a3] obtain ds where ds: "map entry_of rs = map Some ds"
    by blast
  from presentable_shown [OF ds a4] have "list_all (shown w) (kept {} ds)"
    by (rule kept_all)
  from filter_entities_run [OF ds this]
  have run: "filter_entities w (JArr rs) = Inr (kept {} ds)" .
  with gsd_answers [OF a1 a2]
  have g: "get_shelly_devices w http ha_url token = Inr (kept {} ds)"
    by simp
  have "[] \<notin> entry_id ` set (kept {} ds)"
    by (simp add: kept_ids not_wanted_empty)
  with run g show "\<exists>out. filter_entities w (JArr rs) = Inr out
             \<and> get_shelly_devices w http ha_url token = Inr out
             \<and> [] \<notin> entry_id ` set out"
    by blast
next
  assume "tolerated (JObj kvs) \<and> map_of kvs ''entity_id'' = None"
  then show "record_id (JObj kvs) = Some []"
    by (simp add: record_id_def dict_get_def)
next
  assume a: "tolerated (JObj kvs) \<and> map_of kvs ''entity_id'' = None"
  then obtain d where d: "entry_of (JObj kvs) = Some d"
    using tolerated_entry_of by blast
  from a entry_of_record_id [OF d] have "entry_id d = []"
    by (simp add: record_id_def dict_get_def)
  with d show "filter_step w (JObj kvs) st = Inr st"
    by (simp add: filter_step_entry_of not_wanted_empty)
next
  assume a: "map_of kvs ''attributes'' = None"
  then have "entry_of (JObj kvs) = entry_of (JObj ((''attributes'', JObj []) # kvs))"
    by (simp add: entry_of_def dict_get_def)
  then show "filter_step w (JObj kvs) st
               = filter_step w (JObj ((''attributes'', JObj []) # kvs)) st"
    by (simp add: filter_step_entry_of)
next
  assume a: "tolerated (JObj kvs) \<and> presentable w (JObj kvs) \<and> map_of kvs ''attributes'' = None"
  then obtain d where d: "entry_of (JObj kvs) = Some d"
    using tolerated_entry_of by blast
  with a have "shown w d"
    by (simp add: presentable_def)
  with d show "\<exists>st'. filter_step w (JObj kvs) st = Inr st'"
    by (simp add: filter_step_entry_of)
qed

theorem filter_total_witness:
  "answers sample_hub hub_address ''t'' (JArr sample_records)
   \<and> can_print quiet_world hub_address
   \<and> list_all tolerated sample_records
   \<and> list_all (presentable quiet_world) sample_records
   \<and> get_shelly_devices quiet_world sample_hub hub_address ''t'' = Inr sample_entries
   \<and> tolerated (JObj [(''state'', JStr ''on'')])
   \<and> filter_step ascii_world (JObj [(''state'', JStr ''on'')]) ([], {}) = Inr ([], {})
   \<and> filter_step quiet_world (JObj [(''entity_id'', JStr ''cover.garage'')]) ([], {})
       = filter_step quiet_world
           (JObj [(''attributes'', JObj []), (''entity_id'', JStr ''cover.garage'')]) ([], {})
   \<and> filter_step quiet_world (JObj [(''entity_id'', JStr ''cover.garage'')]) ([], {})
       = Inr ([\<lparr>entry_id = ''cover.garage'', entry_name = JStr ''cover.garage''\<rparr>],
              {''cover.garage''})"
proof -
  note whole = filter_total
    [where http = sample_hub and ha_url = hub_address and token = "''t''" and w = quiet_world
       and rs = sample_records and kvs = "[(''state'', JStr ''on'')]" and st = "([], {})"]
  note no_id = filter_total
    [where http = sample_hub and ha_url = hub_address and token = "''t''" and w = ascii_world
       and rs = sample_records and kvs = "[(''state'', JStr ''on'')]" and st = "([], {})"]
  note no_attrs = filter_total
    [where http = sample_hub and ha_url = hub_address and token = "''t''" and w = quiet_world
       and rs = sample_records and kvs = "[(''entity_id'', JStr ''cover.garage'')]"
       and st = "([], {})"]
  have t1: "tolerated (JObj [(''state'', JStr ''on'')])"
    by (simp add: tolerated_def)
  have n1: "map_of [(''state'', JStr ''on'')] ''entity_id'' = None"
    by simp
  have t2: "tolerated (JObj [(''entity_id'', JStr ''cover.garage'')])"
    by (simp add: tolerated_def)
  have n2: "map_of [(''entity_id'', JStr ''cover.garage'')] ''attributes'' = None"
    by simp
  from no_id [THEN conjunct2, THEN conjunct1] t1 n1
  have 1: "filter_step ascii_world (JObj [(''state'', JStr ''on'')]) ([], {}) = Inr ([], {})"
    by (simp only: simp_thms)
  from no_attrs [THEN conjunct2, THEN conjunct2, THEN conjunct1] n2
  have 2: "filter_step quiet_world (JObj [(''entity_id'', JStr ''cover.garage'')]) ([], {})
       = filter_step quiet_world
           (JObj [(''attributes'', JObj []), (''entity_id'', JStr ''cover.garage'')]) ([], {})"
    by (simp only: simp_thms)
  from no_attrs [THEN conjunct2, THEN conjunct2, THEN conjunct2] t2 n2 presentable_quiet
  obtain st' where "filter_step quiet_world (JObj [(''entity_id'', JStr ''cover.garage'')]) ([], {})
                      = Inr st'"
    by blast
  have 3: "filter_step quiet_world (JObj [(''entity_id'', JStr ''cover.garage'')]) ([], {})
       = Inr ([\<lparr>entry_id = ''cover.garage'', entry_name = JStr ''cover.garage''\<rparr>],
              {''cover.garage''})"
    by (simp add: filter_step_def dict_get_def char_eval can_print_quiet)
  from whole [THEN conjunct1] sample_answers can_print_hub_address sample_tolerated
    sample_presentable
  obtain out where "get_shelly_devices quiet_world sample_hub hub_address ''t'' = Inr out"
    by blast
  show ?thesis
    by (intro conjI sample_answers can_print_hub_address sample_tolerated sample_presentable
        sample_run t1 1 2 3)
qed

section \<open>Properties of the exporter\<close>





text \<open>
  C6. Given an empty list, the exporter opens and writes nothing: the file system is
  left as it was, \<^verbatim>\<open>None\<close> is returned, and the one message printed says that there is
  nothing to export.
\<close>

theorem export_nothing:
  "export_to_csv w [] output_file fs
     = \<lparr>returned = None, files_after = fs, printed = [NothingToExport]\<rparr>"
  by (simp add: export_to_csv_def)



section \<open>Properties of the fetch\<close>




section \<open>The configuration of a run\<close>

text \<open>
  C8 as stated fails: with the flags and the environment variables all set, the run goes
  on with the values of the flags, not with those of the environment.
\<close>

theorem flags_win_over_environment:
  "main_config both_set_args both_set_env = Inr (''http://flag:8123'', ''flag-token'')
   \<and> main_config both_set_args both_set_env \<noteq> Inr (''http://env:8123'', ''env-token'')"
  by (simp add: main_config_def both_set_args_def both_set_env_def py_or_def)

text \<open>
  C8, amended. Both flags are optional. The URL the run goes on with is the value of
  \<^verbatim>\<open>--url\<close> when that flag is given and not empty, and the value of HA_URL otherwise;
  the token likewise from \<^verbatim>\<open>--token\<close> and HA_TOKEN. When for the URL or for the token
  neither source gives a non-empty value, the program prints the matching message and
  exits with status 1, having touched no file.
\<close>

theorem config_resolution:
  "(main_config a getenv = Inr (u, t) \<longleftrightarrow>
      u \<noteq> [] \<and> t \<noteq> []
      \<and> Some u = (if truthy (arg_url a) then arg_url a else getenv ''HA_URL'')
      \<and> Some t = (if truthy (arg_token a) then arg_token a else getenv ''HA_TOKEN''))
   \<and> ((\<exists>m. main_config a getenv = Inl m) \<longleftrightarrow>
      (\<not> truthy (arg_url a) \<and> \<not> truthy (getenv ''HA_URL''))
      \<or> (\<not> truthy (arg_token a) \<and> \<not> truthy (getenv ''HA_TOKEN'')))
   \<and> (main_config a getenv = Inl m \<longrightarrow>
      (m = MissingUrl \<or> m = MissingToken)
      \<and> main w http getenv a fs = \<lparr>exit_status = 1, files_left = fs, messages = [m]\<rparr>)"
proof (intro conjI)
  show "main_config a getenv = Inr (u, t) \<longleftrightarrow>
      u \<noteq> [] \<and> t \<noteq> []
      \<and> Some u = (if truthy (arg_url a) then arg_url a else getenv ''HA_URL'')
      \<and> Some t = (if truthy (arg_token a) then arg_token a else getenv ''HA_TOKEN'')"
    by (cases "arg_url a"; cases "arg_token a"; cases "getenv ''HA_URL''";
        cases "getenv ''HA_TOKEN''")
      (auto simp: main_config_def py_or_def Let_def)
  show "(\<exists>m. main_config a getenv = Inl m) \<longleftrightarrow>
      (\<not> truthy (arg_url a) \<and> \<not> truthy (getenv ''HA_URL''))
      \<or> (\<not> truthy (arg_token a) \<and> \<not> truthy (getenv ''HA_TOKEN''))"
    by (auto simp: main_config_def py_or_def Let_def)
  show "main_config a getenv = Inl m \<longrightarrow>
      (m = MissingUrl \<or> m = MissingToken)
      \<and> main w http getenv a fs = \<lparr>exit_status = 1, files_left = fs, messages = [m]\<rparr>"
    by (auto simp: main_def main_config_def py_or_def Let_def split: if_splits)
qed

theorem config_resolution_witness:
  "main_config both_set_args both_set_env = Inr (''http://flag:8123'', ''flag-token'')
   \<and> main_config no_args both_set_env = Inr (''http://env:8123'', ''env-token'')
   \<and> main_config no_args no_env = Inl MissingUrl
   \<and> main quiet_world (hub_with Failed Failed) no_env no_args Map.empty
       = \<lparr>exit_status = 1, files_left = Map.empty, messages = [MissingUrl]\<rparr>"
proof -
  note flags = config_resolution
    [where a = both_set_args and getenv = both_set_env and u = "''http://flag:8123''" and t = "''flag-token''"
       and m = MissingUrl and w = quiet_world and http = "hub_with Failed Failed"
       and fs = Map.empty]
  note env = config_resolution
    [where a = no_args and getenv = both_set_env and u = "''http://env:8123''" and t = "''env-token''"
       and m = MissingUrl and w = quiet_world and http = "hub_with Failed Failed"
       and fs = Map.empty]
  note none = config_resolution
    [where a = no_args and getenv = no_env and u = "''http://env:8123''" and t = "''env-token''"
       and m = MissingUrl and w = quiet_world and http = "hub_with Failed Failed"
       and fs = Map.empty]
  have 1: "main_config both_set_args both_set_env = Inr (''http://flag:8123'', ''flag-token'')"
    using flags [THEN conjunct1] by (simp add: both_set_args_def both_set_env_def)
  have 2: "main_config no_args both_set_env = Inr (''http://env:8123'', ''env-token'')"
    using env [THEN conjunct1] by (simp add: no_args_def both_set_env_def)
  have 3: "main_config no_args no_env = Inl MissingUrl"
    by (simp add: main_config_def no_args_def no_env_def py_or_def)
  from none [THEN conjunct2, THEN conjunct2] 3
  have 4: "main quiet_world (hub_with Failed Failed) no_env no_args Map.empty
       = \<lparr>exit_status = 1, files_left = Map.empty, messages = [MissingUrl]\<rparr>"
    by (simp only: simp_thms)
  show ?thesis
    by (intro conjI 1 2 3 4)
qed

end
